theory Spec2Isabelle
  imports Main
begin

section \<open>Data model of the pill splitter (src/src/App.tsx)\<close>

text \<open>
  The component keeps its state in seven React state cells. Coordinates are the
  \<open>clientX\<close>/\<open>clientY\<close> values of mouse events, taken as whole pixels; the handlers
  only add, subtract, compare and take \<open>Math.abs\<close>/\<open>Math.min\<close> of them, so every
  number that reaches the store is then an integer, far from the range where a
  JavaScript number rounds, and is modelled as \<open>int\<close>.

  A pill object \<open>{id, x, y, width, height, color, borderRadius}\<close> is a record. Its
  fields carry the prefix \<open>pill_\<close>, since \<open>id\<close>, \<open>x\<close> and \<open>y\<close> would clash with HOL's
  identity function and with the variables of every later statement.

  An id is either the literal \<open>'temp-pill'\<close> of the draft or a result of
  \<open>crypto.randomUUID()\<close>. The generator is modelled as a supply of pairwise distinct
  values: the n-th call of the session returns \<open>Uuid n\<close>, and the number of calls made
  so far is part of the state (\<open>uuidCount\<close>).
\<close>

datatype ident = TempPill | Uuid nat

record pill =
  pill_id :: ident
  pill_x :: int
  pill_y :: int
  pill_width :: int
  pill_height :: int
  pill_color :: string
  pill_borderRadius :: int

record point =
  pt_x :: int
  pt_y :: int

record split_lines =
  sl_x :: int
  sl_y :: int
  sl_visible :: bool

record mouse_event =
  clientX :: int
  clientY :: int
  button :: int

record app_state =
  pills :: "pill list"
  splitLines :: split_lines
  drawing :: bool
  drawStart :: point
  tempPill :: "pill option"
  draggingPillId :: "ident option"
  dragOffset :: point
  uuidCount :: nat

definition MIN_DRAW_SIZE :: int where
  "MIN_DRAW_SIZE = 40"

definition MIN_SPLIT_SIZE :: int where
  "MIN_SPLIT_SIZE = 20"

definition BORDER_RADIUS :: int where
  "BORDER_RADIUS = 20"

text \<open>The state of the first render: every \<open>useState\<close> cell at its initial value.\<close>

definition initial_state :: app_state where
  "initial_state =
     \<lparr>pills = [],
      splitLines = \<lparr>sl_x = 0, sl_y = 0, sl_visible = False\<rparr>,
      drawing = False,
      drawStart = \<lparr>pt_x = 0, pt_y = 0\<rparr>,
      tempPill = None,
      draggingPillId = None,
      dragOffset = \<lparr>pt_x = 0, pt_y = 0\<rparr>,
      uuidCount = 0\<rparr>"

section \<open>Sources of fresh values\<close>

definition randomUUID :: "nat \<Rightarrow> ident \<times> nat" where
  "randomUUID n = (Uuid n, Suc n)"

text \<open>
  \<open>getRandomColor\<close> appends six characters of \<open>letters\<close> to \<open>'#'\<close>. The argument
  \<open>rnd i\<close> stands for the value of \<open>Math.floor(Math.random() * 16)\<close> in round \<open>i\<close> of
  the loop; indexing a JavaScript string out of range gives \<open>undefined\<close>, which \<open>+=\<close>
  appends as text.
\<close>

definition letters :: string where
  "letters = ''0123456789ABCDEF''"

definition letter_at :: "nat \<Rightarrow> string" where
  "letter_at d = (if d < length letters then [letters ! d] else ''undefined'')"

definition getRandomColor :: "(nat \<Rightarrow> nat) \<Rightarrow> string" where
  "getRandomColor rnd = fold (\<lambda>i color. color @ letter_at (rnd i)) [0..<6] ''#''"

section \<open>Event handlers\<close>

text \<open>
  Every handler is a function from the state its closure captured to the state after
  its \<open>set...\<close> calls have been applied. Events are handled one at a time, each on the
  state the previous one left.
\<close>

definition handleMouseMove :: "mouse_event \<Rightarrow> app_state \<Rightarrow> app_state" where
  "handleMouseMove e s =
     (let s1 = s\<lparr>splitLines := \<lparr>sl_x = clientX e, sl_y = clientY e, sl_visible = True\<rparr>\<rparr>;
          s2 = (case (drawing s, tempPill s) of
                  (True, Some t) \<Rightarrow>
                    (let currentX = clientX e;
                         currentY = clientY e;
                         newWidth = \<bar>currentX - pt_x (drawStart s)\<bar>;
                         newHeight = \<bar>currentY - pt_y (drawStart s)\<bar>;
                         newX = min currentX (pt_x (drawStart s));
                         newY = min currentY (pt_y (drawStart s))
                     in s1\<lparr>tempPill := Some (t\<lparr>pill_x := newX, pill_y := newY,
                                               pill_width := newWidth,
                                               pill_height := newHeight\<rparr>)\<rparr>)
                | _ \<Rightarrow> s1)
      in case draggingPillId s of
           Some d \<Rightarrow>
             s2\<lparr>pills :=
                  map (\<lambda>p. if pill_id p = d
                           then p\<lparr>pill_x := clientX e - pt_x (dragOffset s),
                                  pill_y := clientY e - pt_y (dragOffset s)\<rparr>
                           else p)
                      (pills s2)\<rparr>
         | None \<Rightarrow> s2)"

definition handleMouseDown :: "(nat \<Rightarrow> nat) \<Rightarrow> mouse_event \<Rightarrow> app_state \<Rightarrow> app_state" where
  "handleMouseDown rnd e s =
     (let clickedOnPill =
            list_ex (\<lambda>p. clientX e \<ge> pill_x p \<and>
                         clientX e \<le> pill_x p + pill_width p \<and>
                         clientY e \<ge> pill_y p \<and>
                         clientY e \<le> pill_y p + pill_height p)
                    (pills s)
      in if \<not> clickedOnPill \<and> button e = 0
         then s\<lparr>drawing := True,
                drawStart := \<lparr>pt_x = clientX e, pt_y = clientY e\<rparr>,
                tempPill := Some \<lparr>pill_id = TempPill,
                                  pill_x = clientX e,
                                  pill_y = clientY e,
                                  pill_width = 0,
                                  pill_height = 0,
                                  pill_color = getRandomColor rnd,
                                  pill_borderRadius = BORDER_RADIUS\<rparr>\<rparr>
         else s)"

text \<open>
  \<open>handleMouseUp\<close> reads \<open>tempPill.color\<close> when it commits a drawn pill. With
  \<open>tempPill\<close> null that is a TypeError, the only exception of the component; it is the
  result \<open>None\<close>.
\<close>

definition handleMouseUp :: "mouse_event \<Rightarrow> app_state \<Rightarrow> app_state option" where
  "handleMouseUp e s =
     (if drawing s then
        (let s1 = s\<lparr>drawing := False, tempPill := None\<rparr>;
             finalWidth = \<bar>clientX e - pt_x (drawStart s)\<bar>;
             finalHeight = \<bar>clientY e - pt_y (drawStart s)\<bar>;
             finalX = min (clientX e) (pt_x (drawStart s));
             finalY = min (clientY e) (pt_y (drawStart s))
         in if finalWidth \<ge> MIN_DRAW_SIZE \<and> finalHeight \<ge> MIN_DRAW_SIZE then
              (let (newId, n) = randomUUID (uuidCount s1)
               in case tempPill s of
                    None \<Rightarrow> None
                  | Some t \<Rightarrow>
                      Some (s1\<lparr>pills := pills s1 @
                                 [\<lparr>pill_id = newId,
                                   pill_x = finalX,
                                   pill_y = finalY,
                                   pill_width = finalWidth,
                                   pill_height = finalHeight,
                                   pill_color = pill_color t,
                                   pill_borderRadius = BORDER_RADIUS\<rparr>],
                               uuidCount := n,
                               draggingPillId := None\<rparr>))
            else Some (s1\<lparr>draggingPillId := None\<rparr>))
      else Some (s\<lparr>draggingPillId := None\<rparr>))"

text \<open>
  The body of \<open>prevPills.forEach\<close> in \<open>handleClick\<close>, for one pill \<open>p\<close>. The accumulator
  is the array \<open>newPills\<close> together with the number of UUIDs drawn so far; the flag
  \<open>splitPerformed\<close> is threaded through the two tests as in the source.
\<close>

definition split_body :: "int \<Rightarrow> int \<Rightarrow> pill \<Rightarrow> pill list \<times> nat \<Rightarrow> pill list \<times> nat" where
  "split_body splitX splitY p acc =
     (case acc of (newPills0, n0) \<Rightarrow>
      (case
         (if splitY > pill_y p \<and> splitY < pill_y p + pill_height p then
            (let topPartHeight = splitY - pill_y p;
                 bottomPartHeight = pill_height p - topPartHeight
             in if topPartHeight < MIN_SPLIT_SIZE \<or> bottomPartHeight < MIN_SPLIT_SIZE then
                  (let moveAmount = 10
                   in if topPartHeight < MIN_SPLIT_SIZE
                      then (newPills0 @ [p\<lparr>pill_y := pill_y p - moveAmount\<rparr>], n0, True)
                      else (newPills0 @ [p\<lparr>pill_y := pill_y p + moveAmount\<rparr>], n0, True))
                else
                  (let (id1, k1) = randomUUID n0;
                       (id2, k2) = randomUUID k1
                   in (newPills0 @
                         [\<lparr>pill_id = id1,
                           pill_x = pill_x p,
                           pill_y = pill_y p,
                           pill_width = pill_width p,
                           pill_height = topPartHeight,
                           pill_color = pill_color p,
                           pill_borderRadius = BORDER_RADIUS\<rparr>,
                          \<lparr>pill_id = id2,
                           pill_x = pill_x p,
                           pill_y = splitY,
                           pill_width = pill_width p,
                           pill_height = bottomPartHeight,
                           pill_color = pill_color p,
                           pill_borderRadius = BORDER_RADIUS\<rparr>],
                       k2, True)))
          else (newPills0, n0, False))
       of (newPills1, n1, splitPerformed1) \<Rightarrow>
      (case
         (if splitX > pill_x p \<and> splitX < pill_x p + pill_width p \<and> \<not> splitPerformed1 then
            (let leftPartWidth = splitX - pill_x p;
                 rightPartWidth = pill_width p - leftPartWidth
             in if leftPartWidth < MIN_SPLIT_SIZE \<or> rightPartWidth < MIN_SPLIT_SIZE then
                  (let moveAmount = 10
                   in if leftPartWidth < MIN_SPLIT_SIZE
                      then (newPills1 @ [p\<lparr>pill_x := pill_x p - moveAmount\<rparr>], n1, True)
                      else (newPills1 @ [p\<lparr>pill_x := pill_x p + moveAmount\<rparr>], n1, True))
                else
                  (let (id1, k1) = randomUUID n1;
                       (id2, k2) = randomUUID k1
                   in (newPills1 @
                         [\<lparr>pill_id = id1,
                           pill_x = pill_x p,
                           pill_y = pill_y p,
                           pill_width = leftPartWidth,
                           pill_height = pill_height p,
                           pill_color = pill_color p,
                           pill_borderRadius = BORDER_RADIUS\<rparr>,
                          \<lparr>pill_id = id2,
                           pill_x = splitX,
                           pill_y = pill_y p,
                           pill_width = rightPartWidth,
                           pill_height = pill_height p,
                           pill_color = pill_color p,
                           pill_borderRadius = BORDER_RADIUS\<rparr>],
                       k2, True)))
          else (newPills1, n1, splitPerformed1))
       of (newPills2, n2, splitPerformed2) \<Rightarrow>
         if \<not> splitPerformed2 then (newPills2 @ [p], n2) else (newPills2, n2))))"

text \<open>The updater passed to \<open>setPills\<close>: the loop over \<open>prevPills\<close>, from an empty array.\<close>

definition split_pills :: "int \<Rightarrow> int \<Rightarrow> pill list \<Rightarrow> nat \<Rightarrow> pill list \<times> nat" where
  "split_pills splitX splitY prevPills n = fold (split_body splitX splitY) prevPills ([], n)"

definition handleClick :: "mouse_event \<Rightarrow> app_state \<Rightarrow> app_state" where
  "handleClick e s =
     (if drawing s \<or> draggingPillId s \<noteq> None then s
      else
        (let splitX = clientX e;
             splitY = clientY e;
             (newPills, n) = split_pills splitX splitY (pills s) (uuidCount s)
         in s\<lparr>pills := newPills, uuidCount := n\<rparr>))"

text \<open>
  \<open>onMouseDownPill\<close> belongs to the \<open>Pill\<close> element rendered for \<open>p\<close>; its closure holds
  the \<open>id\<close>, \<open>x\<close> and \<open>y\<close> of that pill. It stops the propagation of the mousedown, so
  the container's \<open>handleMouseDown\<close> does not run for it.
\<close>

definition onMouseDownPill :: "pill \<Rightarrow> mouse_event \<Rightarrow> app_state \<Rightarrow> app_state" where
  "onMouseDownPill p e s =
     s\<lparr>draggingPillId := Some (pill_id p),
       dragOffset := \<lparr>pt_x = clientX e - pill_x p, pt_y = clientY e - pill_y p\<rparr>\<rparr>"

definition handleMouseLeave :: "app_state \<Rightarrow> app_state" where
  "handleMouseLeave s = s\<lparr>splitLines := (splitLines s)\<lparr>sl_visible := False\<rparr>\<rparr>"

section \<open>The events of the page\<close>

text \<open>
  What the browser delivers: \<open>mousemove\<close>, \<open>mouseup\<close> and \<open>mouseleave\<close> on the window,
  \<open>mousedown\<close> either on the container (\<open>MouseDown\<close>, with the random digits that
  \<open>getRandomColor\<close> will draw) or on the element of the pill at index \<open>i\<close> of the store
  (\<open>PillMouseDown\<close>), and \<open>click\<close>, which bubbles to the container from wherever it
  lands. A \<open>PillMouseDown\<close> for an index with no element reaches no handler.
\<close>

datatype event =
    MouseMove mouse_event
  | MouseDown "nat \<Rightarrow> nat" mouse_event
  | PillMouseDown nat mouse_event
  | MouseUp mouse_event
  | Click mouse_event
  | MouseLeave

fun dispatch :: "event \<Rightarrow> app_state \<Rightarrow> app_state option" where
  "dispatch (MouseMove e) s = Some (handleMouseMove e s)"
| "dispatch (MouseDown rnd e) s = Some (handleMouseDown rnd e s)"
| "dispatch (PillMouseDown i e) s =
     (if i < length (pills s) then Some (onMouseDownPill (pills s ! i) e s) else Some s)"
| "dispatch (MouseUp e) s = handleMouseUp e s"
| "dispatch (Click e) s = Some (handleClick e s)"
| "dispatch MouseLeave s = Some (handleMouseLeave s)"

fun run :: "event list \<Rightarrow> app_state \<Rightarrow> app_state option" where
  "run [] s = Some s"
| "run (ev # evs) s = (case dispatch ev s of None \<Rightarrow> None | Some s' \<Rightarrow> run evs s')"

text \<open>The three modes of the interaction, read off the state cells.\<close>

definition is_idle :: "app_state \<Rightarrow> bool" where
  "is_idle s = (\<not> drawing s \<and> draggingPillId s = None)"

definition is_drawing :: "app_state \<Rightarrow> bool" where
  "is_drawing s = drawing s"

definition is_dragging :: "app_state \<Rightarrow> bool" where
  "is_dragging s = (draggingPillId s \<noteq> None)"

section \<open>Invariants of the store\<close>

text \<open>
  Every id in the store came from \<open>randomUUID\<close>, at a call already counted, and no id
  occurs twice.
\<close>

definition id_below :: "nat \<Rightarrow> ident \<Rightarrow> bool" where
  "id_below n i = (case i of Uuid j \<Rightarrow> j < n | TempPill \<Rightarrow> False)"

definition ids_ok :: "app_state \<Rightarrow> bool" where
  "ids_ok s = (distinct (map pill_id (pills s)) \<and>
               list_all (\<lambda>q. id_below (uuidCount s) (pill_id q)) (pills s))"

text \<open>No pill of the store is narrower or lower than \<open>MIN_SPLIT_SIZE\<close>.\<close>

definition sizes_ok :: "app_state \<Rightarrow> bool" where
  "sizes_ok s =
     list_all (\<lambda>q. pill_width q \<ge> MIN_SPLIT_SIZE \<and> pill_height q \<ge> MIN_SPLIT_SIZE) (pills s)"

text \<open>While \<open>drawing\<close> is set there is a draft: the two cells are set and cleared together.\<close>

definition draft_ok :: "app_state \<Rightarrow> bool" where
  "draft_ok s = (drawing s \<longrightarrow> tempPill s \<noteq> None)"

section \<open>Concrete inputs\<close>

definition example_pill :: pill where
  "example_pill = \<lparr>pill_id = Uuid 0, pill_x = 100, pill_y = 100, pill_width = 100,
                    pill_height = 100, pill_color = ''#1A2B3C'', pill_borderRadius = 20\<rparr>"

definition example_state :: app_state where
  "example_state = initial_state\<lparr>pills := [example_pill], uuidCount := 1\<rparr>"

definition at_point :: "int \<Rightarrow> int \<Rightarrow> mouse_event" where
  "at_point px py = \<lparr>clientX = px, clientY = py, button = 0\<rparr>"

section \<open>The split loop, shape by shape\<close>

lemma split_body_acc:
  "split_body sx sy p (acc, n) =
     (acc @ fst (split_body sx sy p ([], n)), snd (split_body sx sy p ([], n)))"
  by (simp add: split_body_def Let_def randomUUID_def)

lemma fold_split_body_acc:
  "fold (split_body sx sy) ps (acc, n) =
     (acc @ fst (fold (split_body sx sy) ps ([], n)), snd (fold (split_body sx sy) ps ([], n)))"
proof (induction ps arbitrary: acc n)
  case Nil
  show ?case by simp
next
  case (Cons p ps)
  obtain out k where body: "split_body sx sy p ([], n) = (out, k)"
    by (cases "split_body sx sy p ([], n)")
  have step: "split_body sx sy p (acc, n) = (acc @ out, k)"
    using split_body_acc [of sx sy p acc n] body by simp
  show ?case
    using Cons.IH [of "acc @ out" k] Cons.IH [of out k] body step by simp
qed

lemma split_pills_Nil: "split_pills sx sy [] n = ([], n)"
  by (simp add: split_pills_def)

lemma split_pills_Cons:
  "split_pills sx sy (p # ps) n =
     (fst (split_body sx sy p ([], n)) @ fst (split_pills sx sy ps (snd (split_body sx sy p ([], n)))),
      snd (split_pills sx sy ps (snd (split_body sx sy p ([], n)))))"
proof -
  obtain out k where body: "split_body sx sy p ([], n) = (out, k)"
    by (cases "split_body sx sy p ([], n)")
  show ?thesis
    using fold_split_body_acc [of sx sy ps out k] body by (simp add: split_pills_def)
qed

lemma split_pills_append:
  "split_pills sx sy (ps @ qs) n =
     (fst (split_pills sx sy ps n) @ fst (split_pills sx sy qs (snd (split_pills sx sy ps n))),
      snd (split_pills sx sy qs (snd (split_pills sx sy ps n))))"
proof (induction ps arbitrary: n)
  case Nil
  show ?case by (simp add: split_pills_Nil)
next
  case (Cons p ps)
  show ?case
    by (simp add: split_pills_Cons Cons.IH)
qed

lemma split_body_vertical_split:
  assumes "pill_y p < sy" "sy < pill_y p + pill_height p"
    and "\<not> sy - pill_y p < 20" "\<not> pill_height p - (sy - pill_y p) < 20"
  shows "split_body sx sy p ([], n) =
     ([\<lparr>pill_id = Uuid n, pill_x = pill_x p, pill_y = pill_y p, pill_width = pill_width p,
        pill_height = sy - pill_y p, pill_color = pill_color p, pill_borderRadius = 20\<rparr>,
       \<lparr>pill_id = Uuid (Suc n), pill_x = pill_x p, pill_y = sy, pill_width = pill_width p,
        pill_height = pill_height p - (sy - pill_y p), pill_color = pill_color p,
        pill_borderRadius = 20\<rparr>], Suc (Suc n))"
  using assms
  by (simp add: split_body_def Let_def randomUUID_def MIN_SPLIT_SIZE_def BORDER_RADIUS_def)

lemma split_body_vertical_nudge:
  assumes "pill_y p < sy" "sy < pill_y p + pill_height p"
    and "sy - pill_y p < 20 \<or> pill_height p - (sy - pill_y p) < 20"
  shows "split_body sx sy p ([], n) =
     ([p\<lparr>pill_y := (if sy - pill_y p < 20 then pill_y p - 10 else pill_y p + 10)\<rparr>], n)"
  using assms
  by (auto simp add: split_body_def Let_def MIN_SPLIT_SIZE_def)

lemma split_body_horizontal_split:
  assumes "\<not> (pill_y p < sy \<and> sy < pill_y p + pill_height p)"
    and "pill_x p < sx" "sx < pill_x p + pill_width p"
    and "\<not> sx - pill_x p < 20" "\<not> pill_width p - (sx - pill_x p) < 20"
  shows "split_body sx sy p ([], n) =
     ([\<lparr>pill_id = Uuid n, pill_x = pill_x p, pill_y = pill_y p, pill_width = sx - pill_x p,
        pill_height = pill_height p, pill_color = pill_color p, pill_borderRadius = 20\<rparr>,
       \<lparr>pill_id = Uuid (Suc n), pill_x = sx, pill_y = pill_y p,
        pill_width = pill_width p - (sx - pill_x p),
        pill_height = pill_height p, pill_color = pill_color p,
        pill_borderRadius = 20\<rparr>], Suc (Suc n))"
  using assms
  by (simp add: split_body_def Let_def randomUUID_def MIN_SPLIT_SIZE_def BORDER_RADIUS_def)

lemma split_body_horizontal_nudge:
  assumes "\<not> (pill_y p < sy \<and> sy < pill_y p + pill_height p)"
    and "pill_x p < sx" "sx < pill_x p + pill_width p"
    and "sx - pill_x p < 20 \<or> pill_width p - (sx - pill_x p) < 20"
  shows "split_body sx sy p ([], n) =
     ([p\<lparr>pill_x := (if sx - pill_x p < 20 then pill_x p - 10 else pill_x p + 10)\<rparr>], n)"
  using assms
  by (auto simp add: split_body_def Let_def MIN_SPLIT_SIZE_def)

lemma split_body_untouched:
  assumes "\<not> (pill_y p < sy \<and> sy < pill_y p + pill_height p)"
    and "\<not> (pill_x p < sx \<and> sx < pill_x p + pill_width p)"
  shows "split_body sx sy p ([], n) = ([p], n)"
  using assms
  by (auto simp add: split_body_def Let_def)

section \<open>Identifiers stay unique\<close>

lemma id_below_mono: "id_below m i \<Longrightarrow> m \<le> n \<Longrightarrow> id_below n i"
  by (cases i) (simp_all add: id_below_def)

lemma id_below_Uuid [simp]: "id_below n (Uuid j) = (j < n)"
  by (simp add: id_below_def)

lemma split_body_ids:
  "(map pill_id (fst (split_body sx sy p ([], n))) = [pill_id p] \<and>
      snd (split_body sx sy p ([], n)) = n) \<or>
   (map pill_id (fst (split_body sx sy p ([], n))) = [Uuid n, Uuid (Suc n)] \<and>
      snd (split_body sx sy p ([], n)) = Suc (Suc n))"
  by (simp add: split_body_def Let_def randomUUID_def)

lemma split_pills_ids:
  assumes "distinct (map pill_id ps)"
    and "\<forall>q\<in>set ps. id_below m (pill_id q)"
    and "m \<le> n"
  shows "n \<le> snd (split_pills sx sy ps n) \<and>
         distinct (map pill_id (fst (split_pills sx sy ps n))) \<and>
         (\<forall>i\<in>set (map pill_id (fst (split_pills sx sy ps n))).
            i \<in> set (map pill_id ps) \<or>
            (\<exists>j. i = Uuid j \<and> n \<le> j \<and> j < snd (split_pills sx sy ps n)))"
  using assms
proof (induction ps arbitrary: n)
  case Nil
  show ?case by (simp add: split_pills_Nil)
next
  case (Cons p ps)
  let ?out = "fst (split_body sx sy p ([], n))"
  let ?k = "snd (split_body sx sy p ([], n))"
  let ?rest = "fst (split_pills sx sy ps ?k)"
  let ?r = "snd (split_pills sx sy ps ?k)"
  have k: "n \<le> ?k" using split_body_ids [of sx sy p n] by auto
  have below_p: "id_below m (pill_id p)" using Cons.prems(2) by simp
  have ih: "?k \<le> ?r \<and> distinct (map pill_id ?rest) \<and>
        (\<forall>i\<in>set (map pill_id ?rest).
            i \<in> set (map pill_id ps) \<or> (\<exists>j. i = Uuid j \<and> ?k \<le> j \<and> j < ?r))"
    using Cons.IH [of ?k] Cons.prems k by simp
  have old_below: "\<forall>i\<in>set (map pill_id ps). id_below m i"
    using Cons.prems(2) by simp
  have p_notin: "pill_id p \<notin> set (map pill_id ps)"
    using Cons.prems(1) by simp
  have out_cases: "(map pill_id ?out = [pill_id p] \<and> ?k = n) \<or>
      (map pill_id ?out = [Uuid n, Uuid (Suc n)] \<and> ?k = Suc (Suc n))"
    by (rule split_body_ids)
  have unfold: "split_pills sx sy (p # ps) n = (?out @ ?rest, ?r)"
    by (simp add: split_pills_Cons)
  have le: "n \<le> ?r" using k ih by simp
  have disj: "set (map pill_id ?out) \<inter> set (map pill_id ?rest) = {}"
  proof (rule ccontr)
    assume "set (map pill_id ?out) \<inter> set (map pill_id ?rest) \<noteq> {}"
    then obtain i where i1: "i \<in> set (map pill_id ?out)" and i2: "i \<in> set (map pill_id ?rest)"
      by blast
    from i2 ih have c: "i \<in> set (map pill_id ps) \<or> (\<exists>j. i = Uuid j \<and> ?k \<le> j \<and> j < ?r)"
      by blast
    from out_cases show False
    proof
      assume a: "map pill_id ?out = [pill_id p] \<and> ?k = n"
      with i1 have ip: "i = pill_id p" by simp
      from c show False
      proof
        assume "i \<in> set (map pill_id ps)"
        with ip p_notin show False by simp
      next
        assume "\<exists>j. i = Uuid j \<and> ?k \<le> j \<and> j < ?r"
        then obtain j where j: "i = Uuid j" "?k \<le> j" by blast
        from j ip below_p have "j < m" by (simp add: id_below_def)
        with j a \<open>m \<le> n\<close> show False by simp
      qed
    next
      assume a: "map pill_id ?out = [Uuid n, Uuid (Suc n)] \<and> ?k = Suc (Suc n)"
      with i1 have ip: "i = Uuid n \<or> i = Uuid (Suc n)" by auto
      from c show False
      proof
        assume "i \<in> set (map pill_id ps)"
        with old_below have "id_below m i" by blast
        with ip \<open>m \<le> n\<close> show False by auto
      next
        assume "\<exists>j. i = Uuid j \<and> ?k \<le> j \<and> j < ?r"
        then obtain j where "i = Uuid j" "?k \<le> j" by blast
        with ip a show False by auto
      qed
    qed
  qed
  have dist_out: "distinct (map pill_id ?out)"
    using out_cases by auto
  have dist: "distinct (map pill_id (?out @ ?rest))"
    using dist_out ih disj by simp
  have mem: "\<forall>i\<in>set (map pill_id (?out @ ?rest)).
            i \<in> set (map pill_id (p # ps)) \<or> (\<exists>j. i = Uuid j \<and> n \<le> j \<and> j < ?r)"
  proof
    fix i assume "i \<in> set (map pill_id (?out @ ?rest))"
    then have "i \<in> set (map pill_id ?out) \<or> i \<in> set (map pill_id ?rest)" by auto
    then show "i \<in> set (map pill_id (p # ps)) \<or> (\<exists>j. i = Uuid j \<and> n \<le> j \<and> j < ?r)"
    proof
      assume i1: "i \<in> set (map pill_id ?out)"
      from out_cases show ?thesis
      proof
        assume "map pill_id ?out = [pill_id p] \<and> ?k = n"
        with i1 show ?thesis by simp
      next
        assume a: "map pill_id ?out = [Uuid n, Uuid (Suc n)] \<and> ?k = Suc (Suc n)"
        with i1 have "i = Uuid n \<or> i = Uuid (Suc n)" by auto
        moreover have "Suc (Suc n) \<le> ?r" using a ih by simp
        ultimately show ?thesis by auto
      qed
    next
      assume "i \<in> set (map pill_id ?rest)"
      with ih have "i \<in> set (map pill_id ps) \<or> (\<exists>j. i = Uuid j \<and> ?k \<le> j \<and> j < ?r)"
        by blast
      with k show ?thesis by auto
    qed
  qed
  show ?case
    unfolding unfold fst_conv snd_conv using le dist mem by blast
qed

lemma handleClick_idle:
  assumes "\<not> drawing s" and "draggingPillId s = None"
  shows "handleClick e s =
     s\<lparr>pills := fst (split_pills (clientX e) (clientY e) (pills s) (uuidCount s)),
       uuidCount := snd (split_pills (clientX e) (clientY e) (pills s) (uuidCount s))\<rparr>"
  using assms by (simp add: handleClick_def Let_def case_prod_beta)

lemma handleClick_ids_ok:
  assumes "ids_ok s"
  shows "ids_ok (handleClick e s)"
proof (cases "drawing s \<or> draggingPillId s \<noteq> None")
  case True
  then show ?thesis using assms by (simp add: handleClick_def)
next
  case False
  let ?res = "split_pills (clientX e) (clientY e) (pills s) (uuidCount s)"
  have d: "distinct (map pill_id (pills s))"
    and b: "\<forall>q\<in>set (pills s). id_below (uuidCount s) (pill_id q)"
    using assms by (simp_all add: ids_ok_def list_all_iff)
  have facts: "uuidCount s \<le> snd ?res \<and>
         distinct (map pill_id (fst ?res)) \<and>
         (\<forall>i\<in>set (map pill_id (fst ?res)).
            i \<in> set (map pill_id (pills s)) \<or>
            (\<exists>j. i = Uuid j \<and> uuidCount s \<le> j \<and> j < snd ?res))"
    by (rule split_pills_ids [OF d b order_refl])
  have "\<forall>q\<in>set (fst ?res). id_below (snd ?res) (pill_id q)"
  proof
    fix q assume "q \<in> set (fst ?res)"
    then have "pill_id q \<in> set (map pill_id (fst ?res))" by simp
    with facts have "pill_id q \<in> set (map pill_id (pills s)) \<or>
            (\<exists>j. pill_id q = Uuid j \<and> uuidCount s \<le> j \<and> j < snd ?res)" by blast
    then show "id_below (snd ?res) (pill_id q)"
    proof
      assume "pill_id q \<in> set (map pill_id (pills s))"
      then have "id_below (uuidCount s) (pill_id q)" using b by auto
      then show ?thesis using facts id_below_mono by blast
    next
      assume "\<exists>j. pill_id q = Uuid j \<and> uuidCount s \<le> j \<and> j < snd ?res"
      then show ?thesis by auto
    qed
  qed
  then show ?thesis
    using False facts
    by (simp add: handleClick_idle ids_ok_def list_all_iff)
qed

lemma handleClick_at_pill:
  assumes "is_idle s" and "pills s = pre @ p # post"
  shows "pills (handleClick e s) =
           fst (split_pills (clientX e) (clientY e) pre (uuidCount s)) @
           fst (split_body (clientX e) (clientY e) p
                  ([], snd (split_pills (clientX e) (clientY e) pre (uuidCount s)))) @
           fst (split_pills (clientX e) (clientY e) post
                  (snd (split_body (clientX e) (clientY e) p
                     ([], snd (split_pills (clientX e) (clientY e) pre (uuidCount s))))))"
  using assms
  by (simp add: is_idle_def handleClick_idle split_pills_append split_pills_Cons)

lemma split_pills_untouched:
  assumes "\<forall>p\<in>set ps. \<not> (pill_y p < sy \<and> sy < pill_y p + pill_height p) \<and>
                       \<not> (pill_x p < sx \<and> sx < pill_x p + pill_width p)"
  shows "split_pills sx sy ps n = (ps, n)"
  using assms
proof (induction ps)
  case Nil
  show ?case by (simp add: split_pills_Nil)
next
  case (Cons p ps)
  then have "split_body sx sy p ([], n) = ([p], n)"
    by (intro split_body_untouched) simp_all
  with Cons show ?case by (simp add: split_pills_Cons)
qed

lemma split_body_vertical_ignores_splitX:
  assumes "pill_y p < sy" and "sy < pill_y p + pill_height p"
  shows "split_body sx sy p acc = split_body sx' sy p acc"
  using assms by (cases acc) (simp add: split_body_def Let_def randomUUID_def)

lemma split_body_forms:
  "fst (split_body sx sy p ([], n)) = [p] \<or>
   fst (split_body sx sy p ([], n)) = [p\<lparr>pill_y := pill_y p - 10\<rparr>] \<or>
   fst (split_body sx sy p ([], n)) = [p\<lparr>pill_y := pill_y p + 10\<rparr>] \<or>
   fst (split_body sx sy p ([], n)) = [p\<lparr>pill_x := pill_x p - 10\<rparr>] \<or>
   fst (split_body sx sy p ([], n)) = [p\<lparr>pill_x := pill_x p + 10\<rparr>] \<or>
   (\<exists>a b. fst (split_body sx sy p ([], n)) = [a, b] \<and>
      pill_x a = pill_x p \<and> pill_y a = pill_y p \<and>
      pill_width a = pill_width p \<and> pill_width b = pill_width p \<and>
      pill_x b = pill_x p \<and> pill_y b = pill_y p + pill_height a \<and>
      pill_height a + pill_height b = pill_height p) \<or>
   (\<exists>a b. fst (split_body sx sy p ([], n)) = [a, b] \<and>
      pill_x a = pill_x p \<and> pill_y a = pill_y p \<and>
      pill_height a = pill_height p \<and> pill_height b = pill_height p \<and>
      pill_y b = pill_y p \<and> pill_x b = pill_x p + pill_width a \<and>
      pill_width a + pill_width b = pill_width p)"
  by (simp add: split_body_def Let_def randomUUID_def)

section \<open>Releasing the button\<close>

lemma handleMouseUp_drawing:
  assumes "drawing s" and "tempPill s = Some t"
  shows "handleMouseUp e s =
     Some (s\<lparr>drawing := False, tempPill := None,
             pills := (if \<bar>clientX e - pt_x (drawStart s)\<bar> \<ge> 40 \<and>
                          \<bar>clientY e - pt_y (drawStart s)\<bar> \<ge> 40
                       then pills s @
                            [\<lparr>pill_id = Uuid (uuidCount s),
                              pill_x = min (clientX e) (pt_x (drawStart s)),
                              pill_y = min (clientY e) (pt_y (drawStart s)),
                              pill_width = \<bar>clientX e - pt_x (drawStart s)\<bar>,
                              pill_height = \<bar>clientY e - pt_y (drawStart s)\<bar>,
                              pill_color = pill_color t,
                              pill_borderRadius = BORDER_RADIUS\<rparr>]
                       else pills s),
             uuidCount := (if \<bar>clientX e - pt_x (drawStart s)\<bar> \<ge> 40 \<and>
                              \<bar>clientY e - pt_y (drawStart s)\<bar> \<ge> 40
                           then Suc (uuidCount s) else uuidCount s),
             draggingPillId := None\<rparr>)"
  using assms
  by (simp add: handleMouseUp_def Let_def randomUUID_def MIN_DRAW_SIZE_def)

lemma fresh_above:
  assumes "ids_ok s" and "uuidCount s \<le> j"
  shows "Uuid j \<notin> set (map pill_id (pills s))"
proof
  assume "Uuid j \<in> set (map pill_id (pills s))"
  then obtain q where "q \<in> set (pills s)" and "pill_id q = Uuid j" by auto
  with assms(1) have "id_below (uuidCount s) (Uuid j)"
    by (metis ids_ok_def list_all_iff)
  with assms(2) show False by simp
qed

lemma handleMouseUp_ids_ok:
  assumes "ids_ok s" and "handleMouseUp e s = Some s'"
  shows "ids_ok s'"
proof (cases "drawing s")
  case False
  with assms show ?thesis by (auto simp add: handleMouseUp_def ids_ok_def)
next
  case True
  show ?thesis
  proof (cases "tempPill s")
    case None
    with True assms show ?thesis
      by (auto simp add: handleMouseUp_def ids_ok_def Let_def randomUUID_def split: if_splits)
  next
    case (Some t)
    have below: "list_all (\<lambda>q. id_below (Suc (uuidCount s)) (pill_id q)) (pills s)"
      using assms(1) id_below_mono [of "uuidCount s" _ "Suc (uuidCount s)"]
      by (auto simp add: ids_ok_def list_all_iff)
    have "Uuid (uuidCount s) \<notin> set (map pill_id (pills s))"
      using fresh_above [OF assms(1), of "uuidCount s"] by simp
    with below assms handleMouseUp_drawing [OF True Some, of e] show ?thesis
      by (auto simp add: ids_ok_def)
  qed
qed

lemma getRandomColor_example: "getRandomColor (\<lambda>i. i) = ''#012345''"
  by code_simp

lemma handleMouseDown_example:
  "handleMouseDown (\<lambda>i. i) (at_point px py) initial_state =
     initial_state\<lparr>drawing := True, drawStart := \<lparr>pt_x = px, pt_y = py\<rparr>,
       tempPill := Some \<lparr>pill_id = TempPill, pill_x = px, pill_y = py, pill_width = 0,
                          pill_height = 0, pill_color = ''#012345'', pill_borderRadius = 20\<rparr>\<rparr>"
  by (simp add: handleMouseDown_def initial_state_def at_point_def getRandomColor_example
      BORDER_RADIUS_def)

section \<open>Moving while dragging\<close>

lemma handleMouseMove_dragging:
  assumes "draggingPillId s = Some d"
  shows "pills (handleMouseMove e s) =
           map (\<lambda>q. if pill_id q = d
                    then q\<lparr>pill_x := clientX e - pt_x (dragOffset s),
                           pill_y := clientY e - pt_y (dragOffset s)\<rparr>
                    else q) (pills s)"
    and "draggingPillId (handleMouseMove e s) = Some d"
    and "dragOffset (handleMouseMove e s) = dragOffset s"
  using assms
  by (simp_all add: handleMouseMove_def Let_def split: bool.splits option.splits)

lemma run_moves: "run (map MouseMove ms) s = Some (fold handleMouseMove ms s)"
  by (induction ms arbitrary: s) simp_all

lemma fold_moves_dragging:
  assumes "draggingPillId s = Some d"
  shows "draggingPillId (fold handleMouseMove ms s) = Some d \<and>
         dragOffset (fold handleMouseMove ms s) = dragOffset s \<and>
         map pill_id (pills (fold handleMouseMove ms s)) = map pill_id (pills s) \<and>
         (\<forall>m::mouse_event. map (\<lambda>q. if pill_id q = d
                        then q\<lparr>pill_x := clientX m - pt_x (dragOffset s),
                               pill_y := clientY m - pt_y (dragOffset s)\<rparr>
                        else q) (pills (fold handleMouseMove ms s)) =
              map (\<lambda>q. if pill_id q = d
                        then q\<lparr>pill_x := clientX m - pt_x (dragOffset s),
                               pill_y := clientY m - pt_y (dragOffset s)\<rparr>
                        else q) (pills s))"
  using assms
proof (induction ms arbitrary: s)
  case Nil
  then show ?case by simp
next
  case (Cons e ms)
  let ?s1 = "handleMouseMove e s"
  note step = handleMouseMove_dragging [OF Cons.prems, of e]
  have ih: "draggingPillId (fold handleMouseMove ms ?s1) = Some d \<and>
         dragOffset (fold handleMouseMove ms ?s1) = dragOffset ?s1 \<and>
         map pill_id (pills (fold handleMouseMove ms ?s1)) = map pill_id (pills ?s1) \<and>
         (\<forall>m::mouse_event. map (\<lambda>q. if pill_id q = d
                        then q\<lparr>pill_x := clientX m - pt_x (dragOffset ?s1),
                               pill_y := clientY m - pt_y (dragOffset ?s1)\<rparr>
                        else q) (pills (fold handleMouseMove ms ?s1)) =
              map (\<lambda>q. if pill_id q = d
                        then q\<lparr>pill_x := clientX m - pt_x (dragOffset ?s1),
                               pill_y := clientY m - pt_y (dragOffset ?s1)\<rparr>
                        else q) (pills ?s1))"
    using Cons.IH [OF step(2)] .
  have ids: "map pill_id (pills ?s1) = map pill_id (pills s)"
    unfolding step(1) by (induction "pills s") auto
  have again: "map (\<lambda>q. if pill_id q = d
                        then q\<lparr>pill_x := clientX m - pt_x (dragOffset s),
                               pill_y := clientY m - pt_y (dragOffset s)\<rparr>
                        else q) (pills ?s1) =
              map (\<lambda>q. if pill_id q = d
                        then q\<lparr>pill_x := clientX m - pt_x (dragOffset s),
                               pill_y := clientY m - pt_y (dragOffset s)\<rparr>
                        else q) (pills s)" for m :: mouse_event
    unfolding step(1) by simp
  have "draggingPillId (fold handleMouseMove ms ?s1) = Some d"
    using ih by blast
  moreover have "dragOffset (fold handleMouseMove ms ?s1) = dragOffset s"
    using ih step(3) by metis
  moreover have "map pill_id (pills (fold handleMouseMove ms ?s1)) = map pill_id (pills s)"
    using ih ids by metis
  moreover have "map (\<lambda>q. if pill_id q = d
                        then q\<lparr>pill_x := clientX m - pt_x (dragOffset s),
                               pill_y := clientY m - pt_y (dragOffset s)\<rparr>
                        else q) (pills (fold handleMouseMove ms ?s1)) =
              map (\<lambda>q. if pill_id q = d
                        then q\<lparr>pill_x := clientX m - pt_x (dragOffset s),
                               pill_y := clientY m - pt_y (dragOffset s)\<rparr>
                        else q) (pills s)" for m :: mouse_event
  proof -
    have "map (\<lambda>q. if pill_id q = d
                        then q\<lparr>pill_x := clientX m - pt_x (dragOffset ?s1),
                               pill_y := clientY m - pt_y (dragOffset ?s1)\<rparr>
                        else q) (pills (fold handleMouseMove ms ?s1)) =
              map (\<lambda>q. if pill_id q = d
                        then q\<lparr>pill_x := clientX m - pt_x (dragOffset ?s1),
                               pill_y := clientY m - pt_y (dragOffset ?s1)\<rparr>
                        else q) (pills ?s1)"
      using ih by blast
    then show ?thesis
      unfolding step(3) using again [of m] by (rule trans)
  qed
  ultimately show ?case
    unfolding fold_simps by blast
qed

lemma dragged_store:
  assumes "draggingPillId s = Some d"
  shows "pills (fold handleMouseMove (ms @ [m]) s) =
           map (\<lambda>q. if pill_id q = d
                    then q\<lparr>pill_x := clientX m - pt_x (dragOffset s),
                           pill_y := clientY m - pt_y (dragOffset s)\<rparr>
                    else q) (pills s)"
    and "draggingPillId (fold handleMouseMove (ms @ [m]) s) = Some d"
    and "dragOffset (fold handleMouseMove (ms @ [m]) s) = dragOffset s"
proof -
  let ?s1 = "fold handleMouseMove ms s"
  note mid = fold_moves_dragging [OF assms, of ms]
  have d1: "draggingPillId ?s1 = Some d" using mid by blast
  have o1: "dragOffset ?s1 = dragOffset s" using mid by blast
  have m1: "map (\<lambda>q. if pill_id q = d
                    then q\<lparr>pill_x := clientX m - pt_x (dragOffset s),
                           pill_y := clientY m - pt_y (dragOffset s)\<rparr>
                    else q) (pills ?s1) =
            map (\<lambda>q. if pill_id q = d
                    then q\<lparr>pill_x := clientX m - pt_x (dragOffset s),
                           pill_y := clientY m - pt_y (dragOffset s)\<rparr>
                    else q) (pills s)" using mid by blast
  note last = handleMouseMove_dragging [OF d1, of m]
  show "pills (fold handleMouseMove (ms @ [m]) s) =
           map (\<lambda>q. if pill_id q = d
                    then q\<lparr>pill_x := clientX m - pt_x (dragOffset s),
                           pill_y := clientY m - pt_y (dragOffset s)\<rparr>
                    else q) (pills s)"
    using last(1) [unfolded o1] m1 by simp
  show "draggingPillId (fold handleMouseMove (ms @ [m]) s) = Some d"
    using last(2) by simp
  show "dragOffset (fold handleMouseMove (ms @ [m]) s) = dragOffset s"
    using last(3) o1 by simp
qed

section \<open>Sizes in the store\<close>

lemma split_body_sizes:
  assumes "pill_width p \<ge> 20" and "pill_height p \<ge> 20"
  shows "\<forall>q\<in>set (fst (split_body sx sy p ([], n))). pill_width q \<ge> 20 \<and> pill_height q \<ge> 20"
  using assms
  by (simp add: split_body_def Let_def randomUUID_def MIN_SPLIT_SIZE_def)

lemma split_pills_sizes:
  assumes "\<forall>p\<in>set ps. pill_width p \<ge> 20 \<and> pill_height p \<ge> 20"
  shows "\<forall>q\<in>set (fst (split_pills sx sy ps n)). pill_width q \<ge> 20 \<and> pill_height q \<ge> 20"
  using assms
proof (induction ps arbitrary: n)
  case Nil
  show ?case by (simp add: split_pills_Nil)
next
  case (Cons p ps)
  have "\<forall>q\<in>set (fst (split_body sx sy p ([], n))). pill_width q \<ge> 20 \<and> pill_height q \<ge> 20"
    using Cons.prems by (intro split_body_sizes) simp_all
  moreover have "\<forall>q\<in>set (fst (split_pills sx sy ps (snd (split_body sx sy p ([], n))))).
      pill_width q \<ge> 20 \<and> pill_height q \<ge> 20"
    using Cons.IH Cons.prems by simp
  ultimately show ?case
    by (auto simp add: split_pills_Cons)
qed

lemma handleClick_sizes_ok:
  assumes "sizes_ok s"
  shows "sizes_ok (handleClick e s)"
proof (cases "drawing s \<or> draggingPillId s \<noteq> None")
  case True
  then show ?thesis using assms by (simp add: handleClick_def)
next
  case False
  have "\<forall>p\<in>set (pills s). pill_width p \<ge> 20 \<and> pill_height p \<ge> 20"
    using assms by (simp add: sizes_ok_def list_all_iff MIN_SPLIT_SIZE_def)
  then show ?thesis
    using False split_pills_sizes [of "pills s" "clientX e" "clientY e" "uuidCount s"]
    by (simp add: handleClick_idle sizes_ok_def list_all_iff MIN_SPLIT_SIZE_def)
qed

lemma handleMouseMove_sizes_ok:
  assumes "sizes_ok s"
  shows "sizes_ok (handleMouseMove e s)"
  using assms
  by (auto simp add: handleMouseMove_def Let_def sizes_ok_def list_all_iff
      split: bool.splits option.splits)

lemma handleMouseUp_sizes_ok:
  assumes "sizes_ok s" and "handleMouseUp e s = Some s'"
  shows "sizes_ok s'"
  using assms
  by (auto simp add: handleMouseUp_def Let_def randomUUID_def sizes_ok_def list_all_iff
      MIN_DRAW_SIZE_def MIN_SPLIT_SIZE_def split: if_splits option.splits)

lemma dispatch_sizes_ok:
  assumes "sizes_ok s" and "dispatch ev s = Some s'"
  shows "sizes_ok s'"
proof (cases ev)
  case (MouseMove e)
  with assms handleMouseMove_sizes_ok [of s e] show ?thesis by auto
next
  case (MouseDown rnd e)
  with assms show ?thesis by (auto simp add: handleMouseDown_def Let_def sizes_ok_def)
next
  case (PillMouseDown i e)
  with assms show ?thesis
    by (auto simp add: onMouseDownPill_def sizes_ok_def split: if_splits)
next
  case (MouseUp e)
  with assms handleMouseUp_sizes_ok [of s e s'] show ?thesis by simp
next
  case (Click e)
  with assms handleClick_sizes_ok [of s e] show ?thesis by auto
next
  case MouseLeave
  with assms show ?thesis by (auto simp add: handleMouseLeave_def sizes_ok_def)
qed

lemma dispatch_draft_ok:
  assumes "draft_ok s"
  shows "\<exists>s'. dispatch ev s = Some s' \<and> draft_ok s'"
proof (cases ev)
  case (MouseMove e)
  with assms show ?thesis
    by (auto simp add: handleMouseMove_def Let_def draft_ok_def split: bool.splits option.splits)
next
  case (MouseDown rnd e)
  with assms show ?thesis by (auto simp add: handleMouseDown_def Let_def draft_ok_def)
next
  case (PillMouseDown i e)
  with assms show ?thesis by (auto simp add: onMouseDownPill_def draft_ok_def)
next
  case (MouseUp e)
  with assms show ?thesis
    by (auto simp add: handleMouseUp_def Let_def randomUUID_def draft_ok_def split: option.splits)
next
  case (Click e)
  with assms show ?thesis
    by (auto simp add: handleClick_def Let_def draft_ok_def split: prod.splits)
next
  case MouseLeave
  with assms show ?thesis by (auto simp add: handleMouseLeave_def draft_ok_def)
qed

lemma run_sizes_ok:
  assumes "sizes_ok s" and "run evs s = Some s'"
  shows "sizes_ok s'"
  using assms
proof (induction evs arbitrary: s)
  case Nil
  then show ?case by simp
next
  case (Cons ev evs)
  from Cons.prems(2) obtain s1 where s1: "dispatch ev s = Some s1" and rest: "run evs s1 = Some s'"
    by (auto split: option.splits)
  from dispatch_sizes_ok [OF Cons.prems(1) s1] rest show ?case by (rule Cons.IH)
qed

lemma run_draft_ok:
  assumes "draft_ok s"
  shows "\<exists>s'. run evs s = Some s' \<and> draft_ok s'"
  using assms
proof (induction evs arbitrary: s)
  case Nil
  then show ?case by simp
next
  case (Cons ev evs)
  from dispatch_draft_ok [OF Cons.prems, of ev]
  obtain s1 where s1: "dispatch ev s = Some s1" and d1: "draft_ok s1" by blast
  from Cons.IH [OF d1] s1 show ?case by simp
qed

section \<open>States reached from the first render\<close>

lemma handleMouseMove_ids:
  "map pill_id (pills (handleMouseMove e s)) = map pill_id (pills s) \<and>
   uuidCount (handleMouseMove e s) = uuidCount s"
proof -
  have "map pill_id (map (\<lambda>p. if pill_id p = d then p\<lparr>pill_x := a, pill_y := b\<rparr> else p) ps) =
        map pill_id ps" for d a b and ps :: "pill list"
    by (induction ps) auto
  then show ?thesis
    by (simp add: handleMouseMove_def Let_def split: bool.splits option.splits)
qed

lemma dispatch_ids_ok:
  assumes "ids_ok s" and "dispatch ev s = Some s'"
  shows "ids_ok s'"
proof (cases ev)
  case (MouseMove e)
  have ids: "map pill_id (pills (handleMouseMove e s)) = map pill_id (pills s)"
    and cnt: "uuidCount (handleMouseMove e s) = uuidCount s"
    using handleMouseMove_ids [of e s] by simp_all
  have "list_all (id_below (uuidCount s)) (map pill_id (pills s))"
    using assms(1) by (simp add: ids_ok_def list_all_iff)
  then have "list_all (id_below (uuidCount s)) (map pill_id (pills (handleMouseMove e s)))"
    using ids by simp
  then have "list_all (\<lambda>q. id_below (uuidCount s) (pill_id q)) (pills (handleMouseMove e s))"
    by (simp add: list_all_iff)
  moreover have "distinct (map pill_id (pills (handleMouseMove e s)))"
    using assms(1) ids by (simp add: ids_ok_def)
  ultimately show ?thesis
    using MouseMove assms(2) cnt by (auto simp add: ids_ok_def)
next
  case (MouseDown rnd e)
  with assms show ?thesis by (auto simp add: handleMouseDown_def Let_def ids_ok_def)
next
  case (PillMouseDown i e)
  with assms show ?thesis
    by (auto simp add: onMouseDownPill_def ids_ok_def split: if_splits)
next
  case (MouseUp e)
  with assms handleMouseUp_ids_ok [of s e s'] show ?thesis by simp
next
  case (Click e)
  with assms handleClick_ids_ok [of s e] show ?thesis by auto
next
  case MouseLeave
  with assms show ?thesis by (auto simp add: handleMouseLeave_def ids_ok_def)
qed

lemma run_ids_ok:
  assumes "ids_ok s" and "run evs s = Some s'"
  shows "ids_ok s'"
  using assms
proof (induction evs arbitrary: s)
  case Nil
  then show ?case by simp
next
  case (Cons ev evs)
  from Cons.prems(2) obtain s1 where s1: "dispatch ev s = Some s1" and rest: "run evs s1 = Some s'"
    by (auto split: option.splits)
  from dispatch_ids_ok [OF Cons.prems(1) s1] rest show ?case by (rule Cons.IH)
qed

lemma reachable_ok:
  assumes "run evs initial_state = Some s"
  shows "ids_ok s \<and> sizes_ok s \<and> draft_ok s"
proof -
  have i: "ids_ok initial_state" by (simp add: ids_ok_def initial_state_def)
  have z: "sizes_ok initial_state" by (simp add: sizes_ok_def initial_state_def)
  have d: "draft_ok initial_state" by (simp add: draft_ok_def initial_state_def)
  from run_draft_ok [OF d, of evs] assms have "draft_ok s" by auto
  with run_ids_ok [OF i assms] run_sizes_ok [OF z assms] show ?thesis by simp
qed

section \<open>Splitting\<close>

text \<open>
  Claim C2. A click in the idle state whose \<open>clientY\<close> lies strictly inside the vertical
  span of a pill \<open>p\<close> of the store, with both parts at least 20 high, replaces \<open>p\<close> where
  it stood by two pills, top first: \<open>{x: p.x, y: p.y, width: p.width, height: topH}\<close> and
  \<open>{x: p.x, y: splitY, width: p.width, height: botH}\<close>, both of \<open>p\<close>'s colour. The pills
  before and after \<open>p\<close> are handled on their own and keep their places. The two ids are
  new: they are not ids of the store before the click, and the store after the click has
  no id twice, provided the ids of the store were distinct results of earlier
  \<open>randomUUID\<close> calls. The heights add up to \<open>p.height\<close>.
\<close>

theorem split_click_vertical_split:
  assumes "is_idle s"
    and "pills s = pre @ p # post"
    and "pill_y p < clientY e" and "clientY e < pill_y p + pill_height p"
    and "clientY e - pill_y p \<ge> 20"
    and "pill_height p - (clientY e - pill_y p) \<ge> 20"
  shows "let splitX = clientX e;
             splitY = clientY e;
             topH = splitY - pill_y p;
             botH = pill_height p - topH;
             k = snd (split_pills splitX splitY pre (uuidCount s))
         in pills (handleClick e s) =
              fst (split_pills splitX splitY pre (uuidCount s)) @
              [\<lparr>pill_id = Uuid k, pill_x = pill_x p, pill_y = pill_y p,
                pill_width = pill_width p, pill_height = topH,
                pill_color = pill_color p, pill_borderRadius = BORDER_RADIUS\<rparr>,
               \<lparr>pill_id = Uuid (Suc k), pill_x = pill_x p, pill_y = splitY,
                pill_width = pill_width p, pill_height = botH,
                pill_color = pill_color p, pill_borderRadius = BORDER_RADIUS\<rparr>] @
              fst (split_pills splitX splitY post (Suc (Suc k))) \<and>
            topH + botH = pill_height p \<and>
            (ids_ok s \<longrightarrow>
               Uuid k \<notin> set (map pill_id (pills s)) \<and>
               Uuid (Suc k) \<notin> set (map pill_id (pills s)) \<and>
               distinct (map pill_id (pills (handleClick e s))))"
proof -
  let ?sx = "clientX e" and ?sy = "clientY e"
  let ?k = "snd (split_pills ?sx ?sy pre (uuidCount s))"
  have body: "split_body ?sx ?sy p ([], ?k) =
     ([\<lparr>pill_id = Uuid ?k, pill_x = pill_x p, pill_y = pill_y p, pill_width = pill_width p,
        pill_height = ?sy - pill_y p, pill_color = pill_color p, pill_borderRadius = 20\<rparr>,
       \<lparr>pill_id = Uuid (Suc ?k), pill_x = pill_x p, pill_y = ?sy, pill_width = pill_width p,
        pill_height = pill_height p - (?sy - pill_y p), pill_color = pill_color p,
        pill_borderRadius = 20\<rparr>], Suc (Suc ?k))"
    using assms(3-6) by (intro split_body_vertical_split) simp_all
  have shape: "pills (handleClick e s) =
              fst (split_pills ?sx ?sy pre (uuidCount s)) @
              [\<lparr>pill_id = Uuid ?k, pill_x = pill_x p, pill_y = pill_y p,
                pill_width = pill_width p, pill_height = ?sy - pill_y p,
                pill_color = pill_color p, pill_borderRadius = BORDER_RADIUS\<rparr>,
               \<lparr>pill_id = Uuid (Suc ?k), pill_x = pill_x p, pill_y = ?sy,
                pill_width = pill_width p, pill_height = pill_height p - (?sy - pill_y p),
                pill_color = pill_color p, pill_borderRadius = BORDER_RADIUS\<rparr>] @
              fst (split_pills ?sx ?sy post (Suc (Suc ?k)))"
    using handleClick_at_pill [OF assms(1) assms(2), of e] body
    by (simp add: BORDER_RADIUS_def)
  have fresh: "Uuid ?k \<notin> set (map pill_id (pills s)) \<and>
               Uuid (Suc ?k) \<notin> set (map pill_id (pills s)) \<and>
               distinct (map pill_id (pills (handleClick e s)))" if ok: "ids_ok s"
  proof -
    have below: "\<forall>q\<in>set (pills s). id_below (uuidCount s) (pill_id q)"
      and dist: "distinct (map pill_id (pills s))"
      using ok by (simp_all add: ids_ok_def list_all_iff)
    have "distinct (map pill_id pre)" and "\<forall>q\<in>set pre. id_below (uuidCount s) (pill_id q)"
      using below dist assms(2) by simp_all
    then have le: "uuidCount s \<le> ?k"
      using split_pills_ids [of pre "uuidCount s" "uuidCount s" ?sx ?sy] by simp
    have f1: "Uuid ?k \<notin> set (map pill_id (pills s))"
      using fresh_above [OF ok, of ?k] le by simp
    have f2: "Uuid (Suc ?k) \<notin> set (map pill_id (pills s))"
      using fresh_above [OF ok, of "Suc ?k"] le by simp
    have d: "distinct (map pill_id (pills (handleClick e s)))"
      using handleClick_ids_ok [OF ok, of e] by (simp add: ids_ok_def)
    show ?thesis using f1 f2 d by simp
  qed
  show ?thesis
    unfolding Let_def using shape fresh by simp
qed

theorem split_click_vertical_split_witness:
  "pills (handleClick (at_point 150 140) example_state) =
     [\<lparr>pill_id = Uuid 1, pill_x = 100, pill_y = 100, pill_width = 100, pill_height = 40,
       pill_color = ''#1A2B3C'', pill_borderRadius = 20\<rparr>,
      \<lparr>pill_id = Uuid 2, pill_x = 100, pill_y = 140, pill_width = 100, pill_height = 60,
       pill_color = ''#1A2B3C'', pill_borderRadius = 20\<rparr>] \<and>
   ids_ok example_state \<and>
   Uuid 1 \<notin> set (map pill_id (pills example_state)) \<and>
   Uuid 2 \<notin> set (map pill_id (pills example_state))"
  using split_click_vertical_split [of example_state "[]" example_pill "[]" "at_point 150 140"]
  by (simp add: example_state_def example_pill_def at_point_def initial_state_def is_idle_def
      ids_ok_def id_below_def split_pills_Nil BORDER_RADIUS_def)

text \<open>
  Claim C3. A click in the idle state whose \<open>clientY\<close> lies strictly inside the vertical
  span of a pill \<open>p\<close>, with the top or the bottom part lower than 20, replaces \<open>p\<close>
  where it stood by one pill: \<open>p\<close> itself with \<open>y\<close> moved by 10, up when the top part is
  the short one and down otherwise; no id is drawn for it. The horizontal test is the
  mirror image. It is the test of line 175, which includes \<open>!splitPerformed\<close>: it is met
  when \<open>clientX\<close> lies strictly inside the horizontal span and the vertical test was not
  met. With the left or the right part narrower than 20, \<open>p\<close> is replaced by itself with
  \<open>x\<close> moved by 10, left when the left part is the narrow one and right otherwise.
\<close>

theorem split_click_nudge:
  assumes "is_idle s"
    and "pills s = pre @ p # post"
  shows "let splitX = clientX e;
             splitY = clientY e;
             topH = splitY - pill_y p;
             botH = pill_height p - topH;
             leftW = splitX - pill_x p;
             rightW = pill_width p - leftW;
             k = snd (split_pills splitX splitY pre (uuidCount s))
         in (pill_y p < splitY \<and> splitY < pill_y p + pill_height p \<and> (topH < 20 \<or> botH < 20) \<longrightarrow>
               pills (handleClick e s) =
                 fst (split_pills splitX splitY pre (uuidCount s)) @
                 [p\<lparr>pill_y := (if topH < 20 then pill_y p - 10 else pill_y p + 10)\<rparr>] @
                 fst (split_pills splitX splitY post k)) \<and>
            (\<not> (pill_y p < splitY \<and> splitY < pill_y p + pill_height p) \<and>
             pill_x p < splitX \<and> splitX < pill_x p + pill_width p \<and> (leftW < 20 \<or> rightW < 20) \<longrightarrow>
               pills (handleClick e s) =
                 fst (split_pills splitX splitY pre (uuidCount s)) @
                 [p\<lparr>pill_x := (if leftW < 20 then pill_x p - 10 else pill_x p + 10)\<rparr>] @
                 fst (split_pills splitX splitY post k))"
proof -
  let ?sx = "clientX e" and ?sy = "clientY e"
  let ?k = "snd (split_pills ?sx ?sy pre (uuidCount s))"
  note at = handleClick_at_pill [OF assms, of e]
  have v: "pills (handleClick e s) =
                 fst (split_pills ?sx ?sy pre (uuidCount s)) @
                 [p\<lparr>pill_y := (if ?sy - pill_y p < 20 then pill_y p - 10 else pill_y p + 10)\<rparr>] @
                 fst (split_pills ?sx ?sy post ?k)"
    if "pill_y p < ?sy" "?sy < pill_y p + pill_height p"
       "?sy - pill_y p < 20 \<or> pill_height p - (?sy - pill_y p) < 20"
    using at split_body_vertical_nudge [OF that, of ?sx ?k] by simp
  have h: "pills (handleClick e s) =
                 fst (split_pills ?sx ?sy pre (uuidCount s)) @
                 [p\<lparr>pill_x := (if ?sx - pill_x p < 20 then pill_x p - 10 else pill_x p + 10)\<rparr>] @
                 fst (split_pills ?sx ?sy post ?k)"
    if "\<not> (pill_y p < ?sy \<and> ?sy < pill_y p + pill_height p)"
       "pill_x p < ?sx" "?sx < pill_x p + pill_width p"
       "?sx - pill_x p < 20 \<or> pill_width p - (?sx - pill_x p) < 20"
    using at split_body_horizontal_nudge [OF that, of ?k] by simp
  show ?thesis
    unfolding Let_def using v h by blast
qed

theorem split_click_nudge_witness:
  "pills (handleClick (at_point 150 110) example_state) = [example_pill\<lparr>pill_y := 90\<rparr>] \<and>
   pills (handleClick (at_point 150 190) example_state) = [example_pill\<lparr>pill_y := 110\<rparr>] \<and>
   pills (handleClick (at_point 110 100) example_state) = [example_pill\<lparr>pill_x := 90\<rparr>] \<and>
   pills (handleClick (at_point 190 200) example_state) = [example_pill\<lparr>pill_x := 110\<rparr>]"
  using split_click_nudge [of example_state "[]" example_pill "[]" "at_point 150 110"]
    split_click_nudge [of example_state "[]" example_pill "[]" "at_point 150 190"]
    split_click_nudge [of example_state "[]" example_pill "[]" "at_point 110 100"]
    split_click_nudge [of example_state "[]" example_pill "[]" "at_point 190 200"]
  by (simp add: example_state_def example_pill_def at_point_def initial_state_def is_idle_def
      split_pills_Nil)

text \<open>
  Claim C4. A click in the idle state changes each pill \<open>p\<close> of the store at most once.
  What stands in the place of \<open>p\<close> afterwards is at most two pills, and it is one of:
  \<open>p\<close> itself; \<open>p\<close> moved by 10 along one axis; two pills that tile \<open>p\<close> one above
  the other; two pills that tile \<open>p\<close> side by side. When the vertical test is met, the
  result for \<open>p\<close> is the same for every \<open>splitX\<close>, and every pill in it has \<open>p\<close>'s \<open>x\<close>
  and \<open>width\<close>: the horizontal test has no part in it.
\<close>

theorem split_click_one_change:
  assumes "is_idle s"
    and "pills s = pre @ p # post"
  shows "let splitX = clientX e;
             splitY = clientY e;
             k = snd (split_pills splitX splitY pre (uuidCount s));
             out = fst (split_body splitX splitY p ([], k));
             k' = snd (split_body splitX splitY p ([], k))
         in pills (handleClick e s) =
              fst (split_pills splitX splitY pre (uuidCount s)) @ out @
              fst (split_pills splitX splitY post k') \<and>
            length out \<le> 2 \<and>
            (pill_y p < splitY \<and> splitY < pill_y p + pill_height p \<longrightarrow>
               (\<forall>sx'. split_body sx' splitY p ([], k) = split_body splitX splitY p ([], k)) \<and>
               (\<forall>q\<in>set out. pill_x q = pill_x p \<and> pill_width q = pill_width p)) \<and>
            (out = [p] \<or>
             out = [p\<lparr>pill_y := pill_y p - 10\<rparr>] \<or>
             out = [p\<lparr>pill_y := pill_y p + 10\<rparr>] \<or>
             out = [p\<lparr>pill_x := pill_x p - 10\<rparr>] \<or>
             out = [p\<lparr>pill_x := pill_x p + 10\<rparr>] \<or>
             (\<exists>a b. out = [a, b] \<and>
                pill_x a = pill_x p \<and> pill_y a = pill_y p \<and>
                pill_width a = pill_width p \<and> pill_width b = pill_width p \<and>
                pill_x b = pill_x p \<and> pill_y b = pill_y p + pill_height a \<and>
                pill_height a + pill_height b = pill_height p) \<or>
             (\<exists>a b. out = [a, b] \<and>
                pill_x a = pill_x p \<and> pill_y a = pill_y p \<and>
                pill_height a = pill_height p \<and> pill_height b = pill_height p \<and>
                pill_y b = pill_y p \<and> pill_x b = pill_x p + pill_width a \<and>
                pill_width a + pill_width b = pill_width p))"
proof -
  let ?sx = "clientX e" and ?sy = "clientY e"
  let ?k = "snd (split_pills ?sx ?sy pre (uuidCount s))"
  let ?out = "fst (split_body ?sx ?sy p ([], ?k))"
  note forms = split_body_forms [of ?sx ?sy p ?k]
  have len: "length ?out \<le> 2"
    using forms by auto
  have indep: "\<forall>sx'. split_body sx' ?sy p ([], ?k) = split_body ?sx ?sy p ([], ?k)"
    if "pill_y p < ?sy" "?sy < pill_y p + pill_height p"
    using split_body_vertical_ignores_splitX [OF that] by blast
  have cols: "\<forall>q\<in>set ?out. pill_x q = pill_x p \<and> pill_width q = pill_width p"
    if "pill_y p < ?sy" "?sy < pill_y p + pill_height p"
    using that by (simp add: split_body_def Let_def randomUUID_def)
  show ?thesis
    unfolding Let_def
    using handleClick_at_pill [OF assms, of e] len indep cols forms by blast
qed

theorem split_click_one_change_witness:
  "pills (handleClick (at_point 150 140) example_state) =
     fst (split_body 150 140 example_pill ([], 1)) \<and>
   length (fst (split_body 150 140 example_pill ([], 1))) = 2 \<and>
   (\<forall>sx'. split_body sx' 140 example_pill ([], 1) = split_body 150 140 example_pill ([], 1))"
  using split_click_one_change [of example_state "[]" example_pill "[]" "at_point 150 140"]
  by (simp add: example_state_def example_pill_def at_point_def initial_state_def is_idle_def
      split_pills_Nil split_body_def Let_def randomUUID_def MIN_SPLIT_SIZE_def)

text \<open>
  Claim C7. When neither coordinate of the click lies strictly inside the corresponding
  span of any pill of the store, \<open>handleClick\<close> returns the state it was given: the same
  pills with the same fields in the same order, and no id drawn.
\<close>

theorem split_click_outside_unchanged:
  assumes "\<forall>p\<in>set (pills s).
             \<not> (pill_y p < clientY e \<and> clientY e < pill_y p + pill_height p) \<and>
             \<not> (pill_x p < clientX e \<and> clientX e < pill_x p + pill_width p)"
  shows "pills (handleClick e s) = pills s \<and> handleClick e s = s"
  using split_pills_untouched [OF assms, of "uuidCount s"]
  by (simp add: handleClick_def)

theorem split_click_outside_unchanged_witness:
  "handleClick (at_point 250 300) example_state = example_state \<and>
   handleClick (at_point 100 100) example_state = example_state \<and>
   handleClick (at_point 200 200) example_state = example_state"
  using split_click_outside_unchanged [of example_state "at_point 250 300"]
    split_click_outside_unchanged [of example_state "at_point 100 100"]
    split_click_outside_unchanged [of example_state "at_point 200 200"]
  by (simp add: example_state_def example_pill_def at_point_def initial_state_def)

text \<open>
  Claim C8. A split line on an edge of \<open>p\<close> does not trigger the test of that axis. With
  \<open>splitY\<close> equal to \<open>p.y\<close> or to \<open>p.y + p.height\<close>, every pill that the loop body emits for
  \<open>p\<close> has \<open>p\<close>'s \<open>y\<close> and \<open>height\<close>, so \<open>p\<close> was neither split nor nudged vertically;
  with \<open>splitX\<close> equal to \<open>p.x\<close> or to \<open>p.x + p.width\<close>, every such pill has \<open>p\<close>'s \<open>x\<close>
  and \<open>width\<close>. With both lines on edges, \<open>p\<close> is pushed unchanged.
\<close>

theorem boundary_never_splits:
  "((sy = pill_y p \<or> sy = pill_y p + pill_height p) \<longrightarrow>
      (\<forall>q\<in>set (fst (split_body sx sy p ([], n))).
         pill_y q = pill_y p \<and> pill_height q = pill_height p)) \<and>
   ((sx = pill_x p \<or> sx = pill_x p + pill_width p) \<longrightarrow>
      (\<forall>q\<in>set (fst (split_body sx sy p ([], n))).
         pill_x q = pill_x p \<and> pill_width q = pill_width p)) \<and>
   ((sy = pill_y p \<or> sy = pill_y p + pill_height p) \<and>
    (sx = pill_x p \<or> sx = pill_x p + pill_width p) \<longrightarrow>
      split_body sx sy p (acc, n) = (acc @ [p], n))"
proof (intro conjI impI)
  assume "sy = pill_y p \<or> sy = pill_y p + pill_height p"
  then show "\<forall>q\<in>set (fst (split_body sx sy p ([], n))).
         pill_y q = pill_y p \<and> pill_height q = pill_height p"
    by (auto simp add: split_body_def Let_def randomUUID_def)
next
  assume "sx = pill_x p \<or> sx = pill_x p + pill_width p"
  then show "\<forall>q\<in>set (fst (split_body sx sy p ([], n))).
         pill_x q = pill_x p \<and> pill_width q = pill_width p"
    by (auto simp add: split_body_def Let_def randomUUID_def)
next
  assume "(sy = pill_y p \<or> sy = pill_y p + pill_height p) \<and>
    (sx = pill_x p \<or> sx = pill_x p + pill_width p)"
  then have "split_body sx sy p ([], n) = ([p], n)"
    by (intro split_body_untouched) auto
  then show "split_body sx sy p (acc, n) = (acc @ [p], n)"
    using split_body_acc [of sx sy p acc n] by simp
qed

theorem boundary_never_splits_witness:
  "fst (split_body 150 100 example_pill ([], 1)) =
     [\<lparr>pill_id = Uuid 1, pill_x = 100, pill_y = 100, pill_width = 50, pill_height = 100,
       pill_color = ''#1A2B3C'', pill_borderRadius = 20\<rparr>,
      \<lparr>pill_id = Uuid 2, pill_x = 150, pill_y = 100, pill_width = 50, pill_height = 100,
       pill_color = ''#1A2B3C'', pill_borderRadius = 20\<rparr>] \<and>
   split_body 200 200 example_pill ([], 1) = ([example_pill], 1)"
  using boundary_never_splits [of 100 example_pill 150 1 "[]"]
    boundary_never_splits [of 200 example_pill 200 1 "[]"]
  by (simp add: example_pill_def split_body_def Let_def randomUUID_def MIN_SPLIT_SIZE_def
      BORDER_RADIUS_def)

section \<open>Drawing and dragging\<close>

text \<open>
  Claim C5. A mouseup in a state that is drawing, with draft \<open>t\<close> and anchor
  \<open>drawStart\<close>, always returns a state. The final rectangle has \<open>x\<close> and \<open>y\<close> the minima
  of the anchor's and the release's coordinates and \<open>width\<close> and \<open>height\<close> their absolute
  differences. When both are at least 40, the store is the old store followed by one pill
  with that rectangle, the colour of the draft and an id that no pill of the old store
  has; otherwise the store is the old one. Either way the draft is gone and the state is
  idle.
\<close>

theorem draw_release_commits:
  assumes "drawing s" and "tempPill s = Some t"
  shows "let finalX = min (clientX e) (pt_x (drawStart s));
             finalY = min (clientY e) (pt_y (drawStart s));
             finalWidth = \<bar>clientX e - pt_x (drawStart s)\<bar>;
             finalHeight = \<bar>clientY e - pt_y (drawStart s)\<bar>
         in \<exists>s'. handleMouseUp e s = Some s' \<and>
              (finalWidth \<ge> 40 \<and> finalHeight \<ge> 40 \<longrightarrow>
                 pills s' = pills s @
                   [\<lparr>pill_id = Uuid (uuidCount s), pill_x = finalX, pill_y = finalY,
                     pill_width = finalWidth, pill_height = finalHeight,
                     pill_color = pill_color t, pill_borderRadius = BORDER_RADIUS\<rparr>] \<and>
                 (ids_ok s \<longrightarrow> Uuid (uuidCount s) \<notin> set (map pill_id (pills s)) \<and> ids_ok s')) \<and>
              (\<not> (finalWidth \<ge> 40 \<and> finalHeight \<ge> 40) \<longrightarrow> pills s' = pills s) \<and>
              tempPill s' = None \<and> is_idle s'"
proof -
  obtain s' where up: "handleMouseUp e s = Some s'"
    using handleMouseUp_drawing [OF assms, of e] by simp
  have fresh: "Uuid (uuidCount s) \<notin> set (map pill_id (pills s)) \<and> ids_ok s'" if "ids_ok s"
    using fresh_above [OF that, of "uuidCount s"] handleMouseUp_ids_ok [OF that up] by simp
  show ?thesis
    unfolding Let_def
    using up fresh handleMouseUp_drawing [OF assms, of e]
    by (auto simp add: is_idle_def)
qed

theorem draw_release_commits_witness:
  "map_option pills
     (handleMouseUp (at_point 70 10) (handleMouseDown (\<lambda>i. i) (at_point 10 60) initial_state)) =
     Some [\<lparr>pill_id = Uuid 0, pill_x = 10, pill_y = 10, pill_width = 60, pill_height = 50,
            pill_color = ''#012345'', pill_borderRadius = 20\<rparr>] \<and>
   map_option pills
     (handleMouseUp (at_point 45 60) (handleMouseDown (\<lambda>i. i) (at_point 10 10) initial_state)) =
     Some []"
  using draw_release_commits
      [of "handleMouseDown (\<lambda>i. i) (at_point 10 60) initial_state"
          "\<lparr>pill_id = TempPill, pill_x = 10, pill_y = 60, pill_width = 0, pill_height = 0,
            pill_color = ''#012345'', pill_borderRadius = 20\<rparr>" "at_point 70 10"]
    draw_release_commits
      [of "handleMouseDown (\<lambda>i. i) (at_point 10 10) initial_state"
          "\<lparr>pill_id = TempPill, pill_x = 10, pill_y = 10, pill_width = 0, pill_height = 0,
            pill_color = ''#012345'', pill_borderRadius = 20\<rparr>" "at_point 45 60"]
  unfolding handleMouseDown_example
  by (auto simp add: initial_state_def at_point_def BORDER_RADIUS_def)

text \<open>
  Claim C6. A drag starts with a mousedown on the element of the pill \<open>p\<close> at index \<open>i\<close>,
  which records the offset \<open>(dx, dy)\<close> of the pointer from \<open>p\<close>'s top-left corner. After
  any number of moves, the last of them to \<open>(mx, my)\<close>, the state is still dragging with
  the same offset, \<open>p\<close> stands at \<open>(mx - dx, my - dy)\<close> with every other field as it was,
  the widths and heights of the store are the ones it had, and every pill with another id
  is the pill it was.
\<close>

theorem drag_follows_pointer:
  assumes "i < length (pills s)"
  shows "let p = pills s ! i;
             dx = clientX e0 - pill_x p;
             dy = clientY e0 - pill_y p
         in \<exists>s'. run (PillMouseDown i e0 # map MouseMove (ms @ [m])) s = Some s' \<and>
              is_dragging s' \<and>
              dragOffset s' = \<lparr>pt_x = dx, pt_y = dy\<rparr> \<and>
              pills s' ! i = p\<lparr>pill_x := clientX m - dx, pill_y := clientY m - dy\<rparr> \<and>
              pills s' =
                map (\<lambda>q. if pill_id q = pill_id p
                         then q\<lparr>pill_x := clientX m - dx, pill_y := clientY m - dy\<rparr>
                         else q) (pills s) \<and>
              map pill_width (pills s') = map pill_width (pills s) \<and>
              map pill_height (pills s') = map pill_height (pills s) \<and>
              (\<forall>j<length (pills s).
                 pill_id (pills s ! j) \<noteq> pill_id p \<longrightarrow> pills s' ! j = pills s ! j)"
proof -
  let ?p = "pills s ! i"
  let ?s0 = "onMouseDownPill ?p e0 s"
  let ?s' = "fold handleMouseMove (ms @ [m]) ?s0"
  have d0: "draggingPillId ?s0 = Some (pill_id ?p)"
    and off0: "dragOffset ?s0 = \<lparr>pt_x = clientX e0 - pill_x ?p, pt_y = clientY e0 - pill_y ?p\<rparr>"
    and pills0: "pills ?s0 = pills s"
    by (simp_all add: onMouseDownPill_def)
  note drag = dragged_store [OF d0, of ms m]
  have runs: "run (PillMouseDown i e0 # map MouseMove (ms @ [m])) s = Some ?s'"
    using assms run_moves [of "ms @ [m]" ?s0] by simp
  have store: "pills ?s' =
                map (\<lambda>q. if pill_id q = pill_id ?p
                         then q\<lparr>pill_x := clientX m - (clientX e0 - pill_x ?p),
                                pill_y := clientY m - (clientY e0 - pill_y ?p)\<rparr>
                         else q) (pills s)"
    using drag(1) off0 pills0 by simp
  have at_i: "pills ?s' ! i = ?p\<lparr>pill_x := clientX m - (clientX e0 - pill_x ?p),
                                 pill_y := clientY m - (clientY e0 - pill_y ?p)\<rparr>"
    unfolding store using assms by simp
  have widths: "map pill_width (pills ?s') = map pill_width (pills s)"
    unfolding store by (induction "pills s") auto
  have heights: "map pill_height (pills ?s') = map pill_height (pills s)"
    unfolding store by (induction "pills s") auto
  have others: "\<forall>j<length (pills s).
                 pill_id (pills s ! j) \<noteq> pill_id ?p \<longrightarrow> pills ?s' ! j = pills s ! j"
    unfolding store by simp
  have mode: "is_dragging ?s'"
    using drag(2) by (simp add: is_dragging_def)
  have off: "dragOffset ?s' = \<lparr>pt_x = clientX e0 - pill_x ?p, pt_y = clientY e0 - pill_y ?p\<rparr>"
    using drag(3) off0 by simp
  show ?thesis
    unfolding Let_def
    using runs mode off at_i store widths heights others by blast
qed

theorem drag_follows_pointer_witness:
  "map_option pills
     (run [PillMouseDown 0 (at_point 130 170), MouseMove (at_point 140 150),
           MouseMove (at_point 330 470)] example_state) =
     Some [example_pill\<lparr>pill_x := 300, pill_y := 400\<rparr>]"
  using drag_follows_pointer [of 0 example_state "at_point 130 170" "[at_point 140 150]"
      "at_point 330 470"]
  by (simp add: example_state_def example_pill_def at_point_def initial_state_def
      onMouseDownPill_def handleMouseMove_def)

section \<open>The whole machine\<close>

text \<open>
  Claim C9. The store of the first render has no pill, so none below the minimum. From a
  state whose pills are all at least 20 wide and 20 high, every sequence of events (moves,
  presses on the container or on a pill, releases, clicks, leaving the window) that ends
  in a state ends in one whose pills are all at least 20 wide and 20 high. And it does end
  in a state whenever a draft exists while \<open>drawing\<close> is set, as it does from the first
  render on: no event then raises.
\<close>

theorem sizes_invariant:
  "sizes_ok initial_state \<and> draft_ok initial_state \<and>
   (sizes_ok s \<longrightarrow>
      (\<forall>s'. run evs s = Some s' \<longrightarrow>
         (\<forall>q\<in>set (pills s'). pill_width q \<ge> 20 \<and> pill_height q \<ge> 20)) \<and>
      (draft_ok s \<longrightarrow> (\<exists>s'. run evs s = Some s' \<and> sizes_ok s' \<and> draft_ok s')))"
proof (intro conjI impI allI)
  show "sizes_ok initial_state" by (simp add: sizes_ok_def initial_state_def)
  show "draft_ok initial_state" by (simp add: draft_ok_def initial_state_def)
next
  fix s' assume "sizes_ok s" and "run evs s = Some s'"
  then have "sizes_ok s'" by (rule run_sizes_ok)
  then show "\<forall>q\<in>set (pills s'). pill_width q \<ge> 20 \<and> pill_height q \<ge> 20"
    by (simp add: sizes_ok_def list_all_iff MIN_SPLIT_SIZE_def)
next
  assume a: "sizes_ok s" and "draft_ok s"
  then obtain s' where r: "run evs s = Some s'" and "draft_ok s'"
    using run_draft_ok [of s evs] by blast
  moreover have "sizes_ok s'" using a r by (rule run_sizes_ok)
  ultimately show "\<exists>s'. run evs s = Some s' \<and> sizes_ok s' \<and> draft_ok s'" by blast
qed

theorem sizes_invariant_witness:
  "map_option pills
     (run [MouseDown (\<lambda>i. i) (at_point 100 100), MouseMove (at_point 180 230),
           MouseUp (at_point 200 200), Click (at_point 150 140), Click (at_point 150 110)]
        initial_state) =
     Some [\<lparr>pill_id = Uuid 1, pill_x = 100, pill_y = 90, pill_width = 100, pill_height = 40,
            pill_color = ''#012345'', pill_borderRadius = 20\<rparr>,
           \<lparr>pill_id = Uuid 3, pill_x = 100, pill_y = 140, pill_width = 50, pill_height = 60,
            pill_color = ''#012345'', pill_borderRadius = 20\<rparr>,
           \<lparr>pill_id = Uuid 4, pill_x = 150, pill_y = 140, pill_width = 50, pill_height = 60,
            pill_color = ''#012345'', pill_borderRadius = 20\<rparr>] \<and>
   (\<exists>s'. run [MouseDown (\<lambda>i. i) (at_point 100 100), MouseMove (at_point 180 230),
              MouseUp (at_point 200 200), Click (at_point 150 140), Click (at_point 150 110)]
           initial_state = Some s' \<and> sizes_ok s' \<and> draft_ok s')"
proof -
  have "sizes_ok initial_state" and "draft_ok initial_state"
    using sizes_invariant [of initial_state "[]"] by simp_all
  then have "\<exists>s'. run [MouseDown (\<lambda>i. i) (at_point 100 100), MouseMove (at_point 180 230),
              MouseUp (at_point 200 200), Click (at_point 150 140), Click (at_point 150 110)]
           initial_state = Some s' \<and> sizes_ok s' \<and> draft_ok s'"
    using sizes_invariant [of initial_state "[MouseDown (\<lambda>i. i) (at_point 100 100),
      MouseMove (at_point 180 230), MouseUp (at_point 200 200), Click (at_point 150 140),
      Click (at_point 150 110)]"] by blast
  moreover have "map_option pills
     (run [MouseDown (\<lambda>i. i) (at_point 100 100), MouseMove (at_point 180 230),
           MouseUp (at_point 200 200), Click (at_point 150 140), Click (at_point 150 110)]
        initial_state) =
     Some [\<lparr>pill_id = Uuid 1, pill_x = 100, pill_y = 90, pill_width = 100, pill_height = 40,
            pill_color = ''#012345'', pill_borderRadius = 20\<rparr>,
           \<lparr>pill_id = Uuid 3, pill_x = 100, pill_y = 140, pill_width = 50, pill_height = 60,
            pill_color = ''#012345'', pill_borderRadius = 20\<rparr>,
           \<lparr>pill_id = Uuid 4, pill_x = 150, pill_y = 140, pill_width = 50, pill_height = 60,
            pill_color = ''#012345'', pill_borderRadius = 20\<rparr>]"
    by (simp add: handleMouseDown_def handleMouseMove_def handleMouseUp_def handleClick_def
        split_pills_def split_body_def randomUUID_def getRandomColor_example
        initial_state_def at_point_def Let_def
        MIN_DRAW_SIZE_def MIN_SPLIT_SIZE_def BORDER_RADIUS_def)
  ultimately show ?thesis by blast
qed

text \<open>
  Claim C10. A mousedown on the element of a pill starts dragging that pill whatever the
  button of the event is: \<open>onMouseDownPill\<close> does not read it. A mousedown on the
  container with a button other than 0 leaves the state as it is, so an idle machine stays
  idle; with button 0 and the pointer on no pill it starts drawing.
\<close>

theorem pill_mousedown_any_button:
  "(i < length (pills s) \<longrightarrow>
      (\<exists>s'. dispatch (PillMouseDown i e) s = Some s' \<and> is_dragging s' \<and>
            draggingPillId s' = Some (pill_id (pills s ! i)))) \<and>
   (button e \<noteq> 0 \<longrightarrow> dispatch (MouseDown rnd e) s = Some s) \<and>
   (button e = 0 \<and>
    \<not> list_ex (\<lambda>p. clientX e \<ge> pill_x p \<and> clientX e \<le> pill_x p + pill_width p \<and>
                    clientY e \<ge> pill_y p \<and> clientY e \<le> pill_y p + pill_height p) (pills s) \<longrightarrow>
      is_drawing (handleMouseDown rnd e s))"
  by (simp add: onMouseDownPill_def is_dragging_def handleMouseDown_def is_drawing_def)

theorem pill_mousedown_any_button_witness:
  "map_option draggingPillId
     (dispatch (PillMouseDown 0 \<lparr>clientX = 150, clientY = 150, button = 2\<rparr>) example_state) =
     Some (Some (Uuid 0)) \<and>
   dispatch (MouseDown (\<lambda>i. i) \<lparr>clientX = 300, clientY = 300, button = 2\<rparr>) example_state =
     Some example_state \<and>
   is_idle example_state \<and>
   is_drawing (handleMouseDown (\<lambda>i. i) \<lparr>clientX = 300, clientY = 300, button = 0\<rparr>
                 example_state)"
  using pill_mousedown_any_button [of 0 example_state
      "\<lparr>clientX = 150, clientY = 150, button = 2\<rparr>" "\<lambda>i. i"]
    pill_mousedown_any_button [of 0 example_state
      "\<lparr>clientX = 300, clientY = 300, button = 2\<rparr>" "\<lambda>i. i"]
    pill_mousedown_any_button [of 0 example_state
      "\<lparr>clientX = 300, clientY = 300, button = 0\<rparr>" "\<lambda>i. i"]
  by (auto simp add: example_state_def example_pill_def initial_state_def is_idle_def)

text \<open>
  Claim C1. The claim asks that the click which follows the release of a drag or of a draw
  changes nothing in the store. \<open>handleClick\<close> returns early only while \<open>drawing\<close> or
  \<open>draggingPillId\<close> is set, and the mouseup that comes before the click has cleared both.
  Two runs from a store holding one pill of 100 by 100 at (100, 100): pressing on the pill
  at (150, 140) and releasing there leaves the pill whole, and the click that follows
  splits it at \<open>y = 140\<close>; drawing a second pill from (300, 110) to (400, 160) appends it,
  and the click that follows at (400, 160) splits the first pill at \<open>y = 160\<close>.
\<close>

theorem click_after_release_splits:
  "map_option pills
     (run [PillMouseDown 0 (at_point 150 140), MouseMove (at_point 150 140),
           MouseUp (at_point 150 140)] example_state) = Some [example_pill] \<and>
   map_option pills
     (run [PillMouseDown 0 (at_point 150 140), MouseMove (at_point 150 140),
           MouseUp (at_point 150 140), Click (at_point 150 140)] example_state) =
     Some [\<lparr>pill_id = Uuid 1, pill_x = 100, pill_y = 100, pill_width = 100, pill_height = 40,
            pill_color = ''#1A2B3C'', pill_borderRadius = 20\<rparr>,
           \<lparr>pill_id = Uuid 2, pill_x = 100, pill_y = 140, pill_width = 100, pill_height = 60,
            pill_color = ''#1A2B3C'', pill_borderRadius = 20\<rparr>] \<and>
   map_option pills
     (run [MouseDown (\<lambda>i. i) (at_point 300 110), MouseMove (at_point 400 160),
           MouseUp (at_point 400 160)] example_state) =
     Some [example_pill,
           \<lparr>pill_id = Uuid 1, pill_x = 300, pill_y = 110, pill_width = 100, pill_height = 50,
            pill_color = ''#012345'', pill_borderRadius = 20\<rparr>] \<and>
   map_option pills
     (run [MouseDown (\<lambda>i. i) (at_point 300 110), MouseMove (at_point 400 160),
           MouseUp (at_point 400 160), Click (at_point 400 160)] example_state) =
     Some [\<lparr>pill_id = Uuid 2, pill_x = 100, pill_y = 100, pill_width = 100, pill_height = 60,
            pill_color = ''#1A2B3C'', pill_borderRadius = 20\<rparr>,
           \<lparr>pill_id = Uuid 3, pill_x = 100, pill_y = 160, pill_width = 100, pill_height = 40,
            pill_color = ''#1A2B3C'', pill_borderRadius = 20\<rparr>,
           \<lparr>pill_id = Uuid 1, pill_x = 300, pill_y = 110, pill_width = 100, pill_height = 50,
            pill_color = ''#012345'', pill_borderRadius = 20\<rparr>]"
  by (simp add: handleMouseDown_def handleMouseMove_def handleMouseUp_def handleClick_def
        onMouseDownPill_def split_pills_def split_body_def randomUUID_def getRandomColor_example
        initial_state_def example_state_def example_pill_def at_point_def Let_def
        MIN_DRAW_SIZE_def MIN_SPLIT_SIZE_def BORDER_RADIUS_def)

end
